theory Spec2Isabelle
  imports Main "HOL-Library.Sublist"
begin

section \<open>Text and characters\<close>

text \<open>
  The program \<^verbatim>\<open>publish.py\<close> works on Python \<^verbatim>\<open>str\<close> values. They are modelled as
  \<^typ>\<open>string\<close>, one \<^typ>\<open>char\<close> per character. The character tables below
  (whitespace, letter case) are those of Python for the ASCII range; a character above
  0x7F is neither whitespace nor a cased letter in this model.
\<close>

definition NL :: char where
  "NL = CHR 0x0A"

definition is_space :: "char \<Rightarrow> bool" where
  \<comment> \<open>\<^verbatim>\<open>str.isspace\<close> and the class \<^verbatim>\<open>\s\<close> of a \<^verbatim>\<open>str\<close> pattern: TAB, LF, VT, FF, CR,
      the separators 0x1C to 0x1F, and the space.\<close>
  "is_space c = (let n = (of_char c :: nat) in (9 \<le> n \<and> n \<le> 13) \<or> (28 \<le> n \<and> n \<le> 32))"

definition is_upper :: "char \<Rightarrow> bool" where
  "is_upper c = (let n = (of_char c :: nat) in 65 \<le> n \<and> n \<le> 90)"

definition is_lower :: "char \<Rightarrow> bool" where
  "is_lower c = (let n = (of_char c :: nat) in 97 \<le> n \<and> n \<le> 122)"


definition upper_letters :: string where
  "upper_letters = ''ABCDEFGHIJKLMNOPQRSTUVWXYZ''"

definition lower_letters :: string where
  "lower_letters = ''abcdefghijklmnopqrstuvwxyz''"

definition to_lower :: "char \<Rightarrow> char" where
  "to_lower c = (case map_of (zip upper_letters lower_letters) c of Some d \<Rightarrow> d | None \<Rightarrow> c)"

definition to_upper :: "char \<Rightarrow> char" where
  "to_upper c = (case map_of (zip lower_letters upper_letters) c of Some d \<Rightarrow> d | None \<Rightarrow> c)"

definition lower :: "string \<Rightarrow> string" where
  \<comment> \<open>\<^verbatim>\<open>str.lower()\<close>\<close>
  "lower s = map to_lower s"

fun title_from :: "bool \<Rightarrow> string \<Rightarrow> string" where
  \<comment> \<open>\<^verbatim>\<open>str.title()\<close>: a cased character is upper-cased when the character before it is
      not cased and lower-cased when it is; the flag says whether the previous one was cased.\<close>
  "title_from prev_cased [] = []"
| "title_from prev_cased (c # cs) =
     (if is_lower c then (if prev_cased then c else to_upper c) # title_from True cs
      else if is_upper c then (if prev_cased then to_lower c else c) # title_from True cs
      else c # title_from False cs)"

definition title :: "string \<Rightarrow> string" where
  "title s = title_from False s"

definition replace :: "char \<Rightarrow> char \<Rightarrow> string \<Rightarrow> string" where
  \<comment> \<open>\<^verbatim>\<open>s.replace(a, b)\<close> for one-character \<^verbatim>\<open>a\<close> and \<^verbatim>\<open>b\<close>\<close>
  "replace a b s = map (\<lambda>c. if c = a then b else c) s"

definition strip :: "string \<Rightarrow> string" where
  \<comment> \<open>\<^verbatim>\<open>str.strip()\<close>\<close>
  "strip s = rev (dropWhile is_space (rev (dropWhile is_space s)))"

definition startswith :: "string \<Rightarrow> string \<Rightarrow> bool" where
  \<comment> \<open>\<^verbatim>\<open>s.startswith(p)\<close>\<close>
  "startswith s p = (take (length p) s = p)"

fun join :: "string \<Rightarrow> string list \<Rightarrow> string" where
  \<comment> \<open>\<^verbatim>\<open>sep.join(xs)\<close>\<close>
  "join sep [] = []"
| "join sep [x] = x"
| "join sep (x # y # ys) = x @ sep @ join sep (y # ys)"


section \<open>Regular expressions\<close>

text \<open>
  The part of Python's \<^verbatim>\<open>re\<close> module that the program uses: a pattern is a sequence of
  items, each a single-character atom, a quantified atom, an anchor or a group
  parenthesis. Matching is by backtracking, in the priority order of \<^verbatim>\<open>re\<close>: a greedy
  quantifier tries the longer repetition first, a lazy one the rest of the pattern first.
\<close>

datatype flag = MULTILINE | DOTALL

datatype cset = Single char | Range char char | Space

datatype atom =
    Chr char             \<comment> \<open>a literal character\<close>
  | Dot                  \<comment> \<open>\<^verbatim>\<open>.\<close>\<close>
  | In "cset list"       \<comment> \<open>\<^verbatim>\<open>[...]\<close>, and \<^verbatim>\<open>\s\<close> as \<open>In [Space]\<close>\<close>
  | NotIn "cset list"    \<comment> \<open>\<^verbatim>\<open>[^...]\<close>\<close>

datatype item =
    One atom
  | Plus atom            \<comment> \<open>\<^verbatim>\<open>+\<close>\<close>
  | Star atom            \<comment> \<open>\<^verbatim>\<open>*\<close>\<close>
  | PlusLazy atom        \<comment> \<open>\<^verbatim>\<open>+?\<close>\<close>
  | StarLazy atom        \<comment> \<open>\<^verbatim>\<open>*?\<close>\<close>
  | Bol                  \<comment> \<open>\<^verbatim>\<open>^\<close>\<close>
  | Eol                  \<comment> \<open>\<^verbatim>\<open>$\<close>\<close>
  | GOpen                \<comment> \<open>\<^verbatim>\<open>(\<close>\<close>
  | GClose               \<comment> \<open>\<^verbatim>\<open>)\<close>\<close>

type_synonym regex = "item list"

definition lits :: "string \<Rightarrow> regex" where
  \<comment> \<open>a run of literal characters\<close>
  "lits l = map (\<lambda>c. One (Chr c)) l"

type_synonym groups = "(nat \<times> nat) list"

fun cset_match :: "cset \<Rightarrow> char \<Rightarrow> bool" where
  "cset_match (Single d) c = (c = d)"
| "cset_match (Range lo hi) c = ((of_char lo :: nat) \<le> of_char c \<and> (of_char c :: nat) \<le> of_char hi)"
| "cset_match Space c = is_space c"

fun atom_match :: "flag list \<Rightarrow> atom \<Rightarrow> char \<Rightarrow> bool" where
  "atom_match fl (Chr d) c = (c = d)"
| "atom_match fl Dot c = (DOTALL \<in> set fl \<or> c \<noteq> NL)"
| "atom_match fl (In cs) c = list_ex (\<lambda>x. cset_match x c) cs"
| "atom_match fl (NotIn cs) c = (\<not> list_ex (\<lambda>x. cset_match x c) cs)"

definition at_bol :: "flag list \<Rightarrow> char option \<Rightarrow> bool" where
  \<comment> \<open>\<^verbatim>\<open>^\<close>: at the start of the text; with MULTILINE also after a newline. The
      character before the position is \<open>None\<close> at the start of the text.\<close>
  "at_bol fl prev = (prev = None \<or> (MULTILINE \<in> set fl \<and> prev = Some NL))"

definition at_eol :: "flag list \<Rightarrow> string \<Rightarrow> bool" where
  \<comment> \<open>\<^verbatim>\<open>$\<close>: at the end of the text or before its final newline; with MULTILINE before
      any newline.\<close>
  "at_eol fl s = (s = [] \<or> (if MULTILINE \<in> set fl then hd s = NL else s = [NL]))"

text \<open>
  \<open>re_m fl r prev s k op gs\<close> matches the items \<open>r\<close> against the text \<open>s\<close>, where
  \<open>prev\<close> is the character before \<open>s\<close>, \<open>k\<close> the number of characters the match has
  consumed so far, \<open>op\<close> the start of the open group and \<open>gs\<close> the spans of the groups
  closed so far. It returns the length of the match and the spans of its groups.
\<close>

fun re_m :: "flag list \<Rightarrow> regex \<Rightarrow> char option \<Rightarrow> string \<Rightarrow> nat \<Rightarrow> nat option \<Rightarrow> groups
    \<Rightarrow> (nat \<times> groups) option" where
  "re_m fl [] prev s k op gs = Some (k, gs)"
| "re_m fl (One a # r) prev s k op gs =
     (case s of [] \<Rightarrow> None
      | c # cs \<Rightarrow> if atom_match fl a c then re_m fl r (Some c) cs (Suc k) op gs else None)"
| "re_m fl (Plus a # r) prev s k op gs =
     (case s of [] \<Rightarrow> None
      | c # cs \<Rightarrow> if atom_match fl a c then re_m fl (Star a # r) (Some c) cs (Suc k) op gs else None)"
| "re_m fl (Star a # r) prev s k op gs =
     (case s of [] \<Rightarrow> re_m fl r prev s k op gs
      | c # cs \<Rightarrow>
          if atom_match fl a c then
            (case re_m fl (Star a # r) (Some c) cs (Suc k) op gs of
               Some m \<Rightarrow> Some m
             | None \<Rightarrow> re_m fl r prev s k op gs)
          else re_m fl r prev s k op gs)"
| "re_m fl (PlusLazy a # r) prev s k op gs =
     (case s of [] \<Rightarrow> None
      | c # cs \<Rightarrow>
          if atom_match fl a c then re_m fl (StarLazy a # r) (Some c) cs (Suc k) op gs else None)"
| "re_m fl (StarLazy a # r) prev s k op gs =
     (case re_m fl r prev s k op gs of
        Some m \<Rightarrow> Some m
      | None \<Rightarrow>
          (case s of [] \<Rightarrow> None
           | c # cs \<Rightarrow>
               if atom_match fl a c then re_m fl (StarLazy a # r) (Some c) cs (Suc k) op gs
               else None))"
| "re_m fl (Bol # r) prev s k op gs = (if at_bol fl prev then re_m fl r prev s k op gs else None)"
| "re_m fl (Eol # r) prev s k op gs = (if at_eol fl s then re_m fl r prev s k op gs else None)"
| "re_m fl (GOpen # r) prev s k op gs = re_m fl r prev s k (Some k) gs"
| "re_m fl (GClose # r) prev s k op gs =
     (case op of None \<Rightarrow> None | Some b \<Rightarrow> re_m fl r prev s k None (gs @ [(b, k)]))"

definition match_at :: "flag list \<Rightarrow> regex \<Rightarrow> char option \<Rightarrow> string \<Rightarrow> (nat \<times> groups) option" where
  \<comment> \<open>a match of the pattern that starts at the head of \<open>s\<close>\<close>
  "match_at fl r prev s = re_m fl r prev s 0 None []"

definition group :: "string \<Rightarrow> groups \<Rightarrow> nat \<Rightarrow> string" where
  \<comment> \<open>\<^verbatim>\<open>m.group(i)\<close> for \<open>i \<ge> 1\<close>, in the text \<open>s\<close> that starts where the match starts\<close>
  "group s gs i =
     (if 1 \<le> i \<and> i \<le> length gs
      then (case gs ! (i - 1) of (b, e) \<Rightarrow> take (e - b) (drop b s)) else [])"

datatype rep = Txt string | Grp nat

fun expand :: "rep list \<Rightarrow> string \<Rightarrow> groups \<Rightarrow> string" where
  \<comment> \<open>the replacement template, \<^verbatim>\<open>\1\<close> being \<open>Grp 1\<close>\<close>
  "expand [] s gs = []"
| "expand (Txt t # rs) s gs = t @ expand rs s gs"
| "expand (Grp i # rs) s gs = group s gs i @ expand rs s gs"

definition dec :: "nat option \<Rightarrow> nat option" where
  "dec cnt = map_option (\<lambda>n. n - 1) cnt"

text \<open>
  \<^verbatim>\<open>re.sub\<close> scans the text from left to right. Where the pattern matches, the match is
  replaced and the scan goes on after it; elsewhere the character is copied. \<open>cnt\<close> is
  the number of replacements still allowed (\<open>None\<close>: no limit, the default
  \<^verbatim>\<open>count=0\<close>). Every pattern of the program consumes at least one character, so the
  branches for an empty match (a match of length 0) are never taken.
\<close>

fun sub_from :: "flag list \<Rightarrow> regex \<Rightarrow> rep list \<Rightarrow> nat option \<Rightarrow> char option \<Rightarrow> string \<Rightarrow> string" where
  "sub_from fl r rp cnt prev [] =
     (if cnt = Some 0 then []
      else (case match_at fl r prev [] of None \<Rightarrow> [] | Some (n, gs) \<Rightarrow> expand rp [] gs))"
| "sub_from fl r rp cnt prev (c # cs) =
     (if cnt = Some 0 then c # cs
      else (case match_at fl r prev (c # cs) of
          None \<Rightarrow> c # sub_from fl r rp cnt (Some c) cs
        | Some (n, gs) \<Rightarrow>
            (case n of
               0 \<Rightarrow> expand rp (c # cs) gs @ c # sub_from fl r rp (dec cnt) (Some c) cs
             | Suc j \<Rightarrow>
                 expand rp (c # cs) gs
                 @ sub_from fl r rp (dec cnt) (Some ((c # cs) ! j)) (drop j cs))))"

definition re_sub :: "regex \<Rightarrow> rep list \<Rightarrow> string \<Rightarrow> flag list \<Rightarrow> string" where
  \<comment> \<open>\<^verbatim>\<open>re.sub(pattern, repl, string, flags=fl)\<close>\<close>
  "re_sub r rp s fl = sub_from fl r rp None None s"

definition re_sub_count :: "regex \<Rightarrow> rep list \<Rightarrow> string \<Rightarrow> nat \<Rightarrow> string" where
  \<comment> \<open>\<^verbatim>\<open>re.sub(pattern, repl, string, count=n)\<close> for \<open>n \<ge> 1\<close>, without flags\<close>
  "re_sub_count r rp s n = sub_from [] r rp (Some n) None s"

fun search_from :: "flag list \<Rightarrow> regex \<Rightarrow> char option \<Rightarrow> string \<Rightarrow> (string \<times> groups) option" where
  "search_from fl r prev [] =
     (case match_at fl r prev [] of Some (n, gs) \<Rightarrow> Some ([], gs) | None \<Rightarrow> None)"
| "search_from fl r prev (c # cs) =
     (case match_at fl r prev (c # cs) of
        Some (n, gs) \<Rightarrow> Some (c # cs, gs)
      | None \<Rightarrow> search_from fl r (Some c) cs)"

definition re_search :: "regex \<Rightarrow> string \<Rightarrow> flag list \<Rightarrow> (string \<times> groups) option" where
  \<comment> \<open>\<^verbatim>\<open>re.search(pattern, string, fl)\<close>: the first match, as the text from the start of the
      match on and the spans of the groups in it\<close>
  "re_search r s fl = search_from fl r None s"

fun split_from :: "flag list \<Rightarrow> regex \<Rightarrow> char option \<Rightarrow> string \<Rightarrow> string \<Rightarrow> string list" where
  \<comment> \<open>\<open>cur\<close> is the piece collected since the last separator\<close>
  "split_from fl r prev [] cur = [cur]"
| "split_from fl r prev (c # cs) cur =
     (case match_at fl r prev (c # cs) of
        Some (Suc j, gs) \<Rightarrow> cur # split_from fl r (Some ((c # cs) ! j)) (drop j cs) []
      | _ \<Rightarrow> split_from fl r (Some c) cs (cur @ [c]))"

definition re_split :: "regex \<Rightarrow> string \<Rightarrow> string list" where
  \<comment> \<open>\<^verbatim>\<open>re.split(pattern, string)\<close> for a pattern without groups\<close>
  "re_split r s = split_from [] r None s []"


section \<open>The program\<close>

subsection \<open>\<^verbatim>\<open>markdown_to_html\<close>\<close>

definition pat_frontmatter :: regex where
  \<comment> \<open>\<^verbatim>\<open>^---\n.*?---\n\<close>\<close>
  "pat_frontmatter = Bol # lits ''---\<newline>'' @ [StarLazy Dot] @ lits ''---\<newline>''"

definition pat_h4 :: regex where
  \<comment> \<open>\<^verbatim>\<open>^#### (.+)$\<close>\<close>
  "pat_h4 = Bol # lits ''#### '' @ [GOpen, Plus Dot, GClose, Eol]"

definition pat_h3 :: regex where
  \<comment> \<open>\<^verbatim>\<open>^### (.+)$\<close>\<close>
  "pat_h3 = Bol # lits ''### '' @ [GOpen, Plus Dot, GClose, Eol]"

definition pat_h2 :: regex where
  \<comment> \<open>\<^verbatim>\<open>^## (.+)$\<close>\<close>
  "pat_h2 = Bol # lits ''## '' @ [GOpen, Plus Dot, GClose, Eol]"

definition pat_h1 :: regex where
  \<comment> \<open>\<^verbatim>\<open>^# (.+)$\<close>\<close>
  "pat_h1 = Bol # lits ''# '' @ [GOpen, Plus Dot, GClose, Eol]"

definition pat_star3 :: regex where
  \<comment> \<open>\<^verbatim>\<open>\*\*\*(.+?)\*\*\*\<close>\<close>
  "pat_star3 = lits ''***'' @ [GOpen, PlusLazy Dot, GClose] @ lits ''***''"

definition pat_star2 :: regex where
  \<comment> \<open>\<^verbatim>\<open>\*\*(.+?)\*\*\<close>\<close>
  "pat_star2 = lits ''**'' @ [GOpen, PlusLazy Dot, GClose] @ lits ''**''"

definition pat_star1 :: regex where
  \<comment> \<open>\<^verbatim>\<open>\*(.+?)\*\<close>\<close>
  "pat_star1 = lits ''*'' @ [GOpen, PlusLazy Dot, GClose] @ lits ''*''"

definition pat_under3 :: regex where
  \<comment> \<open>\<^verbatim>\<open>___(.+?)___\<close>\<close>
  "pat_under3 = lits ''___'' @ [GOpen, PlusLazy Dot, GClose] @ lits ''___''"

definition pat_under2 :: regex where
  \<comment> \<open>\<^verbatim>\<open>__(.+?)__\<close>\<close>
  "pat_under2 = lits ''__'' @ [GOpen, PlusLazy Dot, GClose] @ lits ''__''"

definition pat_under1 :: regex where
  \<comment> \<open>\<^verbatim>\<open>_(.+?)_\<close>\<close>
  "pat_under1 = lits ''_'' @ [GOpen, PlusLazy Dot, GClose] @ lits ''_''"

definition pat_link :: regex where
  \<comment> \<open>\<^verbatim>\<open>\[([^\]]+)\]\(([^)]+)\)\<close>\<close>
  "pat_link = lits ''['' @ [GOpen, Plus (NotIn [Single CHR '']'']), GClose] @ lits '']('' @
     [GOpen, Plus (NotIn [Single CHR '')'']), GClose] @ lits '')''"

definition pat_code :: regex where
  \<comment> \<open>\<^verbatim>\<open>`([^`]+)`\<close>\<close>
  "pat_code = lits ''`'' @ [GOpen, Plus (NotIn [Single CHR ''`'']), GClose] @ lits ''`''"

definition pat_blank :: regex where
  \<comment> \<open>\<^verbatim>\<open>\n\s*\n\<close>\<close>
  "pat_blank = lits ''\<newline>'' @ [Star (In [Space])] @ lits ''\<newline>''"

definition pat_newline :: regex where
  \<comment> \<open>\<^verbatim>\<open>\n\<close>\<close>
  "pat_newline = lits ''\<newline>''"

definition tag :: "string \<Rightarrow> rep list" where
  \<comment> \<open>the replacement \<^verbatim>\<open><t>\1</t>\<close>\<close>
  "tag t = [Txt (''<'' @ t @ ''>''), Grp 1, Txt (''</'' @ t @ ''>'')]"

definition strong_em :: "rep list" where
  \<comment> \<open>the replacement \<^verbatim>\<open><strong><em>\1</em></strong>\<close>\<close>
  "strong_em = [Txt ''<strong><em>'', Grp 1, Txt ''</em></strong>'']"

definition anchor :: "rep list" where
  \<comment> \<open>the replacement \<^verbatim>\<open><a href="\2">\1</a>\<close>\<close>
  \<open>anchor = [Txt ''<a href="'', Grp 2, Txt ''">'', Grp 1, Txt ''</a>'']\<close>

definition remove_frontmatter :: "string \<Rightarrow> string" where
  \<comment> \<open>Remove YAML frontmatter\<close>
  "remove_frontmatter html = re_sub pat_frontmatter [] html [DOTALL]"

definition convert_headers :: "string \<Rightarrow> string" where
  \<comment> \<open>Convert headers\<close>
  "convert_headers html =
     (let html = re_sub pat_h4 (tag ''h4'') html [MULTILINE];
          html = re_sub pat_h3 (tag ''h3'') html [MULTILINE];
          html = re_sub pat_h2 (tag ''h2'') html [MULTILINE];
          html = re_sub pat_h1 (tag ''h1'') html [MULTILINE]
      in html)"

definition convert_emphasis :: "string \<Rightarrow> string" where
  \<comment> \<open>Convert bold and italic\<close>
  "convert_emphasis html =
     (let html = re_sub pat_star3 strong_em html [];
          html = re_sub pat_star2 (tag ''strong'') html [];
          html = re_sub pat_star1 (tag ''em'') html [];
          html = re_sub pat_under3 strong_em html [];
          html = re_sub pat_under2 (tag ''strong'') html [];
          html = re_sub pat_under1 (tag ''em'') html []
      in html)"

definition convert_links :: "string \<Rightarrow> string" where
  \<comment> \<open>Convert links\<close>
  "convert_links html = re_sub pat_link anchor html []"

definition convert_code :: "string \<Rightarrow> string" where
  \<comment> \<open>Convert inline code\<close>
  "convert_code html = re_sub pat_code (tag ''code'') html []"

fun process :: "string list \<Rightarrow> string list \<Rightarrow> string list" where
  \<comment> \<open>the loop over \<^verbatim>\<open>paragraphs\<close>, with the list \<^verbatim>\<open>processed\<close> built so far\<close>
  "process [] processed = processed"
| "process (p # ps) processed =
     (let p = strip p in
      if p = [] then process ps processed
      else if startswith p ''<h'' \<or> startswith p ''<ul'' \<or> startswith p ''<ol''
      then process ps (processed @ [p])
      else (let p = re_sub pat_newline [Txt '' ''] p []
            in process ps (processed @ [''<p>'' @ p @ ''</p>''])))"

definition paragraph_sep :: string where
  "paragraph_sep = ''\<newline>            \<newline>            ''"

definition markdown_to_html :: "string \<Rightarrow> string" where
  "markdown_to_html md_text =
     (let html = md_text;
          html = remove_frontmatter html;
          html = convert_headers html;
          html = convert_emphasis html;
          html = convert_links html;
          html = convert_code html;
          paragraphs = re_split pat_blank (strip html);
          processed = process paragraphs []
      in join paragraph_sep processed)"

subsection \<open>\<^verbatim>\<open>create_essay_html\<close>\<close>

definition create_essay_html :: "string \<Rightarrow> string \<Rightarrow> string \<Rightarrow> string" where
  \<comment> \<open>the template, line by line; \<^verbatim>\<open>date\<close> has the default \<^verbatim>\<open>"2026"\<close>\<close>
  \<open>create_essay_html ttl content date = concat [
      ''<!DOCTYPE html>\<newline>'',
      ''<html lang="en">\<newline>'',
      ''<head>\<newline>'',
      ''    <meta charset="UTF-8">\<newline>'',
      ''    <meta name="viewport" content="width=device-width, initial-scale=1.0">\<newline>'',
      ''    <title>'', ttl, '' - Daksh Mehta</title>\<newline>'',
      ''    <style>\<newline>'',
      ''        body {\<newline>'',
      ''            font-family: Verdana, Geneva, sans-serif;\<newline>'',
      ''            font-size: 14px;\<newline>'',
      ''            line-height: 1.8;\<newline>'',
      ''            color: #000;\<newline>'',
      ''            background-color: #f6f6ef;\<newline>'',
      ''            margin: 0;\<newline>'',
      ''            padding: 20px;\<newline>'',
      ''        }\<newline>'',
      ''        \<newline>'',
      ''        .container {\<newline>'',
      ''            max-width: 600px;\<newline>'',
      ''            margin: 0 auto;\<newline>'',
      ''            padding: 20px;\<newline>'',
      ''        }\<newline>'',
      ''        \<newline>'',
      ''        h1 {\<newline>'',
      ''            font-size: 18px;\<newline>'',
      ''            font-weight: bold;\<newline>'',
      ''            margin-bottom: 10px;\<newline>'',
      ''        }\<newline>'',
      ''        \<newline>'',
      ''        h2 {\<newline>'',
      ''            font-size: 16px;\<newline>'',
      ''            font-weight: bold;\<newline>'',
      ''            margin-top: 30px;\<newline>'',
      ''            margin-bottom: 15px;\<newline>'',
      ''        }\<newline>'',
      ''        \<newline>'',
      ''        h3 {\<newline>'',
      ''            font-size: 15px;\<newline>'',
      ''            font-weight: bold;\<newline>'',
      ''            margin-top: 25px;\<newline>'',
      ''            margin-bottom: 12px;\<newline>'',
      ''        }\<newline>'',
      ''        \<newline>'',
      ''        a {\<newline>'',
      ''            color: #000;\<newline>'',
      ''            text-decoration: underline;\<newline>'',
      ''        }\<newline>'',
      ''        \<newline>'',
      ''        a:hover {\<newline>'',
      ''            color: #666;\<newline>'',
      ''        }\<newline>'',
      ''        \<newline>'',
      ''        .nav {\<newline>'',
      ''            margin-bottom: 30px;\<newline>'',
      ''        }\<newline>'',
      ''        \<newline>'',
      ''        .nav a {\<newline>'',
      ''            margin-right: 15px;\<newline>'',
      ''        }\<newline>'',
      ''        \<newline>'',
      ''        .date {\<newline>'',
      ''            color: #666;\<newline>'',
      ''            font-size: 12px;\<newline>'',
      ''            margin-bottom: 30px;\<newline>'',
      ''        }\<newline>'',
      ''        \<newline>'',
      ''        .content p {\<newline>'',
      ''            margin-bottom: 20px;\<newline>'',
      ''            text-align: justify;\<newline>'',
      ''        }\<newline>'',
      ''        \<newline>'',
      ''        .content code {\<newline>'',
      ''            background-color: #e8e8e0;\<newline>'',
      ''            padding: 2px 5px;\<newline>'',
      ''            font-family: monospace;\<newline>'',
      ''        }\<newline>'',
      ''        \<newline>'',
      ''        .footer {\<newline>'',
      ''            margin-top: 50px;\<newline>'',
      ''            font-size: 12px;\<newline>'',
      ''            color: #666;\<newline>'',
      ''        }\<newline>'',
      ''        \<newline>'',
      ''        hr {\<newline>'',
      ''            border: none;\<newline>'',
      ''            border-top: 1px solid #ccc;\<newline>'',
      ''            margin: 20px 0;\<newline>'',
      ''        }\<newline>'',
      ''    </style>\<newline>'',
      ''</head>\<newline>'',
      ''<body>\<newline>'',
      ''    <div class="container">\<newline>'',
      ''        <h1>'', ttl, ''</h1>\<newline>'',
      ''        <div class="date">'', date, ''</div>\<newline>'',
      ''        \<newline>'',
      ''        <div class="nav">\<newline>'',
      ''            <a href="../index.html">Home</a>\<newline>'',
      ''            <a href="../articles.html">Essays</a>\<newline>'',
      ''            <a href="../about.html">About</a>\<newline>'',
      ''        </div>\<newline>'',
      ''        \<newline>'',
      ''        <hr>\<newline>'',
      ''        \<newline>'',
      ''        <div class="content">\<newline>'',
      ''            '', content, ''\<newline>'',
      ''        </div>\<newline>'',
      ''        \<newline>'',
      ''        <hr>\<newline>'',
      ''        \<newline>'',
      ''        <div class="footer">\<newline>'',
      ''            &copy; 2026 Daksh Mehta\<newline>'',
      ''        </div>\<newline>'',
      ''    </div>\<newline>'',
      ''</body>\<newline>'',
      ''</html>\<newline>'']\<close>

subsection \<open>\<^verbatim>\<open>title_from_filename\<close>\<close>

fun split_on :: "char \<Rightarrow> string \<Rightarrow> string list" where
  \<comment> \<open>\<^verbatim>\<open>s.split(d)\<close> for a one-character separator\<close>
  "split_on d [] = [[]]"
| "split_on d (c # cs) =
     (if c = d then [] # split_on d cs
      else (case split_on d cs of [] \<Rightarrow> [[c]] | x # xs \<Rightarrow> (c # x) # xs))"

definition path_name :: "string \<Rightarrow> string" where
  \<comment> \<open>\<^verbatim>\<open>Path(f).name\<close> of a POSIX path: the last component, where empty components and
      \<^verbatim>\<open>.\<close> do not count\<close>
  "path_name f =
     (case rev (filter (\<lambda>p. p \<noteq> [] \<and> p \<noteq> ''.'') (split_on CHR ''/'' f)) of
        [] \<Rightarrow> [] | n # ns \<Rightarrow> n)"

definition rfind :: "char \<Rightarrow> string \<Rightarrow> nat option" where
  \<comment> \<open>\<^verbatim>\<open>s.rfind(d)\<close>, \<open>None\<close> for -1\<close>
  "rfind d s =
     (if d \<in> set s then Some (length s - Suc (length (takeWhile (\<lambda>c. c \<noteq> d) (rev s)))) else None)"

definition stem :: "string \<Rightarrow> string" where
  \<comment> \<open>\<^verbatim>\<open>Path(f).stem\<close>: the name without its last suffix; a dot at the start or at the
      end of the name starts no suffix\<close>
  "stem f =
     (let name = path_name f in
      case rfind CHR ''.'' name of
        None \<Rightarrow> name
      | Some i \<Rightarrow> if 0 < i \<and> Suc i < length name then take i name else name)"

definition title_from_filename :: "string \<Rightarrow> string" where
  "title_from_filename filename =
     (let name = stem filename
      in title (replace CHR ''_'' CHR '' '' (replace CHR ''-'' CHR '' '' name)))"

subsection \<open>\<^verbatim>\<open>filename_from_title\<close>\<close>

definition pat_special :: regex where
  \<comment> \<open>\<^verbatim>\<open>[^a-z0-9\s-]\<close>\<close>
  "pat_special =
     [One (NotIn [Range CHR ''a'' CHR ''z'', Range CHR ''0'' CHR ''9'', Space, Single CHR ''-''])]"

definition pat_spaces :: regex where
  \<comment> \<open>\<^verbatim>\<open>\s+\<close>\<close>
  "pat_spaces = [Plus (In [Space])]"

definition filename_from_title :: "string \<Rightarrow> string" where
  "filename_from_title ttl =
     (let filename = lower ttl;
          filename = re_sub pat_special [] filename [];
          filename = re_sub pat_spaces [Txt ''-''] filename []
      in filename @ ''.html'')"

subsection \<open>\<^verbatim>\<open>main\<close>\<close>

text \<open>
  The program reads and writes files, prints and runs a script. Its world is the file
  system (a map from paths to files and directories), the lines printed so far and the
  commands handed to \<^verbatim>\<open>os.system\<close>. A file holds its text as \<^verbatim>\<open>read()\<close> returns it.
  What the script \<^verbatim>\<open>update-essays.sh\<close> does is not part of the program; the model
  records that it is run.
\<close>

datatype node = File string | Dir

record world =
  fs :: "string \<Rightarrow> node option"
  stdout :: "string list"
  ran :: "string list"

datatype exn = FileNotFoundError | IsADirectoryError | NotADirectoryError

datatype status = Finished | SysExit nat | Raised exn

definition exit_code :: "status \<Rightarrow> nat" where
  \<comment> \<open>the exit status of the process; an uncaught exception ends it with status 1\<close>
  "exit_code st = (case st of Finished \<Rightarrow> 0 | SysExit n \<Rightarrow> n | Raised e \<Rightarrow> 1)"

definition print :: "string \<Rightarrow> world \<Rightarrow> world" where
  "print line w = w\<lparr>stdout := stdout w @ [line]\<rparr>"

definition exists :: "world \<Rightarrow> string \<Rightarrow> bool" where
  \<comment> \<open>\<^verbatim>\<open>os.path.exists\<close>\<close>
  "exists w p = (fs w p \<noteq> None)"

definition read_text :: "world \<Rightarrow> string \<Rightarrow> exn + string" where
  \<comment> \<open>\<^verbatim>\<open>open(p, 'r').read()\<close>\<close>
  "read_text w p =
     (case fs w p of
        None \<Rightarrow> Inl FileNotFoundError
      | Some Dir \<Rightarrow> Inl IsADirectoryError
      | Some (File t) \<Rightarrow> Inr t)"

definition pjoin :: "string \<Rightarrow> string \<Rightarrow> string" where
  \<comment> \<open>\<^verbatim>\<open>d / n\<close> for a directory \<^verbatim>\<open>d\<close> and a name \<^verbatim>\<open>n\<close> without a slash\<close>
  "pjoin d n = d @ ''/'' @ n"

definition write_text :: "world \<Rightarrow> string \<Rightarrow> string \<Rightarrow> string \<Rightarrow> exn + world" where
  \<comment> \<open>\<^verbatim>\<open>open(d / n, 'w').write(t)\<close>: the directory must exist, the file is created or
      overwritten\<close>
  "write_text w d n t =
     (case fs w d of
        None \<Rightarrow> Inl FileNotFoundError
      | Some (File x) \<Rightarrow> Inl NotADirectoryError
      | Some Dir \<Rightarrow>
          (case fs w (pjoin d n) of
             Some Dir \<Rightarrow> Inl IsADirectoryError
           | _ \<Rightarrow> Inr (w\<lparr>fs := (fs w)(pjoin d n \<mapsto> File t)\<rparr>)))"

definition system :: "string \<Rightarrow> world \<Rightarrow> world" where
  \<comment> \<open>\<^verbatim>\<open>os.system(cmd)\<close>\<close>
  "system cmd w = w\<lparr>ran := ran w @ [cmd]\<rparr>"

definition pat_title_line :: regex where
  \<comment> \<open>\<^verbatim>\<open>^# .+\n\<close>\<close>
  "pat_title_line = Bol # lits ''# '' @ [Plus Dot] @ lits ''\<newline>''"

definition resolve_title :: "string list \<Rightarrow> string \<Rightarrow> string \<Rightarrow> string \<times> string" where
  \<comment> \<open>the part of \<^verbatim>\<open>main\<close> that sets \<^verbatim>\<open>title\<close> and may change \<^verbatim>\<open>md_content\<close>; the
      pattern of the search is that of the level-1 header, \<^verbatim>\<open>^# (.+)$\<close>\<close>
  "resolve_title argv md_file md_content =
     (if length argv \<ge> 3 then (argv ! 2, md_content)
      else (case re_search pat_h1 md_content [MULTILINE] of
          Some (m, gs) \<Rightarrow> (group m gs 1, re_sub_count pat_title_line [] md_content 1)
        | None \<Rightarrow> (title_from_filename md_file, md_content)))"

definition usage :: "string list" where
  \<open>usage =
     [''Usage: ./publish.py <markdown-file> [title]'',
      ''Example: ./publish.py drafts/my-essay.md'',
      ''         ./publish.py drafts/my-essay.md "My Custom Title"'']\<close>

definition check_mark :: string where
  \<comment> \<open>U+2713, as the three bytes of its UTF-8 encoding\<close>
  "check_mark = [CHR 0xE2, CHR 0x9C, CHR 0x93]"

definition quoted :: "string \<Rightarrow> string" where
  \<comment> \<open>\<^verbatim>\<open>'...'\<close>\<close>
  "quoted s = CHR 0x27 # s @ [CHR 0x27]"

definition main :: "string list \<Rightarrow> string \<Rightarrow> world \<Rightarrow> status \<times> world" where
  \<comment> \<open>\<open>argv\<close> is \<^verbatim>\<open>sys.argv\<close> and \<open>script_dir\<close> is \<^verbatim>\<open>Path(__file__).parent\<close>\<close>
  \<open>main argv script_dir w =
     (if length argv < 2 then (SysExit 1, fold print usage w)
      else
        let md_file = argv ! 1 in
        if \<not> exists w md_file
        then (SysExit 1, print (''Error: File '' @ quoted md_file @ '' not found'') w)
        else
          (case read_text w md_file of
             Inl e \<Rightarrow> (Raised e, w)
           | Inr md_content \<Rightarrow>
               let (ttl, md_content) = resolve_title argv md_file md_content;
                   html_content = markdown_to_html md_content;
                   full_html = create_essay_html ttl html_content ''2026'';
                   essays_dir = pjoin script_dir ''essays'';
                   output_name = filename_from_title ttl
               in (case write_text w essays_dir output_name full_html of
                     Inl e \<Rightarrow> (Raised e, w)
                   | Inr w \<Rightarrow>
                       let w = print (check_mark @ '' Created: '' @ pjoin essays_dir output_name) w;
                           update_script = pjoin script_dir ''update-essays.sh''
                       in if exists w update_script
                          then (Finished, system (''"'' @ update_script @ ''"'') w)
                          else (Finished, w))))\<close>


section \<open>Definitions for the statements\<close>




text \<open>The character before the position reached after a stretch \<open>u\<close> of the text.\<close>

definition lastc :: "char option \<Rightarrow> string \<Rightarrow> char option" where
  "lastc prev u = (if u = [] then prev else Some (last u))"


text \<open>
  The pattern matches at no position of the text \<open>s\<close>, or at no position inside the
  stretch \<open>u\<close> of the text \<open>u @ v\<close>.
\<close>

fun no_match :: "flag list \<Rightarrow> regex \<Rightarrow> char option \<Rightarrow> string \<Rightarrow> bool" where
  "no_match fl r prev [] = (match_at fl r prev [] = None)"
| "no_match fl r prev (c # cs) = (match_at fl r prev (c # cs) = None \<and> no_match fl r (Some c) cs)"

fun no_match_in :: "flag list \<Rightarrow> regex \<Rightarrow> char option \<Rightarrow> string \<Rightarrow> string \<Rightarrow> bool" where
  "no_match_in fl r prev [] v = True"
| "no_match_in fl r prev (c # u) v =
     (match_at fl r prev (c # u @ v) = None \<and> no_match_in fl r (Some c) u v)"





text \<open>
  The four heading patterns are one pattern with the number of hashes as a parameter. A
  line is a heading of level \<open>n\<close> when it starts with \<open>n\<close> hashes and a space and goes
  on after the space; \<open>heading_line\<close> puts the rest of such a line between the tags and
  leaves any other line as it is. \<open>map_lines f\<close> applies \<open>f\<close> to each line of a text and
  keeps the newlines, and \<open>find_heading\<close> looks for the first level-1 heading line.
\<close>

definition heading_pat :: "nat \<Rightarrow> regex" where
  "heading_pat n = Bol # lits (replicate n CHR ''#'' @ '' '') @ [GOpen, Plus Dot, GClose, Eol]"

definition is_heading :: "nat \<Rightarrow> string \<Rightarrow> bool" where
  "is_heading n l = (startswith l (replicate n CHR ''#'' @ '' '') \<and> Suc n < length l)"

definition heading_line :: "nat \<Rightarrow> string \<Rightarrow> string \<Rightarrow> string" where
  "heading_line n t l =
     (if is_heading n l then ''<'' @ t @ ''>'' @ drop (Suc n) l @ ''</'' @ t @ ''>'' else l)"

function map_lines :: "(string \<Rightarrow> string) \<Rightarrow> string \<Rightarrow> string" where
  "map_lines f s =
     f (takeWhile (\<lambda>c. c \<noteq> NL) s) @
     (case dropWhile (\<lambda>c. c \<noteq> NL) s of [] \<Rightarrow> [] | c # r \<Rightarrow> NL # map_lines f r)"
  by pat_completeness auto
termination
proof (relation "measure (\<lambda>(f, s). length s)")
  show "wf (measure (\<lambda>(f, s). length s))" by simp
next
  fix f :: "string \<Rightarrow> string" and s :: string and c r
  assume "dropWhile (\<lambda>c. c \<noteq> NL) s = c # r"
  then have "length (c # r) \<le> length s" by (metis length_dropWhile_le)
  then show "((f, r), (f, s)) \<in> measure (\<lambda>(f, s). length s)" by simp
qed

function find_heading :: "string \<Rightarrow> (string \<times> groups) option" where
  "find_heading s =
     (if is_heading 1 (takeWhile (\<lambda>c. c \<noteq> NL) s)
      then Some (s, [(2, length (takeWhile (\<lambda>c. c \<noteq> NL) s))])
      else (case dropWhile (\<lambda>c. c \<noteq> NL) s of [] \<Rightarrow> None | c # r \<Rightarrow> find_heading r))"
  by pat_completeness auto
termination
proof (relation "measure length")
  show "wf (measure length)" by simp
next
  fix s :: string and c r
  assume "dropWhile (\<lambda>c. c \<noteq> NL) s = c # r"
  then have "length (c # r) \<le> length s" by (metis length_dropWhile_le)
  then show "(r, s) \<in> measure length" by simp
qed


text \<open>An item that takes at least one character of the text.\<close>

fun consuming :: "item \<Rightarrow> bool" where
  "consuming (One a) = True"
| "consuming (Plus a) = True"
| "consuming (PlusLazy a) = True"
| "consuming i = False"


section \<open>Matching and scanning\<close>

declare re_m.simps [simp del] sub_from.simps [simp del] search_from.simps [simp del]
  split_from.simps [simp del]

lemma dec_None [simp]: "dec None = None"
  by (simp add: dec_def)

lemma lastc_simps [simp]:
  "lastc prev [] = prev" "lastc prev (c # u) = lastc (Some c) u"
  by (simp_all add: lastc_def)

lemma lastc_append [simp]: "lastc prev (u @ v) = lastc (lastc prev u) v"
  by (induction u arbitrary: prev) simp_all

lemma re_m_lits:
  "re_m fl (lits l @ r) prev s k op gs =
     (if startswith s l then re_m fl r (lastc prev l) (drop (length l) s) (k + length l) op gs
      else None)"
proof (induction l arbitrary: prev s k)
  case Nil
  show ?case by (simp add: lits_def startswith_def)
next
  case (Cons d l)
  show ?case
  proof (cases s)
    case Nil
    then show ?thesis by (simp add: lits_def startswith_def re_m.simps)
  next
    case (Cons c cs)
    then show ?thesis
      using Cons.IH[of "Some c" cs "Suc k"]
      by (auto simp: lits_def startswith_def re_m.simps)
  qed
qed

lemma star_greedy:
  assumes "\<forall>c \<in> set u. atom_match fl a c" and "v = [] \<or> \<not> atom_match fl a (hd v)"
    and "re_m fl r (lastc prev u) v (k + length u) op gs = Some m"
  shows "re_m fl (Star a # r) prev (u @ v) k op gs = Some m"
  using assms
proof (induction u arbitrary: prev k)
  case Nil
  then show ?case by (cases v) (auto simp: re_m.simps)
next
  case (Cons c u)
  then show ?case by (simp add: re_m.simps)
qed

lemma plus_greedy:
  assumes "u \<noteq> []" and "\<forall>c \<in> set u. atom_match fl a c" and "v = [] \<or> \<not> atom_match fl a (hd v)"
    and "re_m fl r (lastc prev u) v (k + length u) op gs = Some m"
  shows "re_m fl (Plus a # r) prev (u @ v) k op gs = Some m"
proof (cases u)
  case Nil
  with assms show ?thesis by simp
next
  case (Cons c u')
  with assms star_greedy[of u' fl a v r "Some c" "Suc k" op gs m] show ?thesis
    by (simp add: re_m.simps)
qed



subsection \<open>Scanning a text\<close>

lemma sub_from_zero [simp]: "sub_from fl r rp (Some 0) prev s = s"
  by (cases s) (simp_all add: sub_from.simps)

lemma sub_from_skip:
  "no_match_in fl r prev u v \<Longrightarrow>
     sub_from fl r rp cnt prev (u @ v) = u @ sub_from fl r rp cnt (lastc prev u) v"
  by (induction u arbitrary: prev) (simp_all add: sub_from.simps)


lemma nth_last_aux: "(c # u @ v) ! length u = last (c # u)"
  by (induction u arbitrary: c) simp_all

lemma sub_from_hit:
  assumes "match_at fl r prev (u @ v) = Some (length u, gs)" and "u \<noteq> []" and "cnt \<noteq> Some 0"
  shows "sub_from fl r rp cnt prev (u @ v) =
     expand rp (u @ v) gs @ sub_from fl r rp (dec cnt) (lastc prev u) v"
proof (cases u)
  case Nil
  with assms show ?thesis by simp
next
  case (Cons c u')
  with assms show ?thesis
    by (simp add: sub_from.simps nth_last_aux lastc_def)
qed

lemma search_from_skip:
  "no_match_in fl r prev u v \<Longrightarrow> search_from fl r prev (u @ v) = search_from fl r (lastc prev u) v"
  by (induction u arbitrary: prev) (simp_all add: search_from.simps)

lemma search_from_none: "no_match fl r prev s \<Longrightarrow> search_from fl r prev s = None"
  by (induction s arbitrary: prev) (simp_all add: search_from.simps)

lemma search_from_hit:
  "match_at fl r prev s = Some (n, gs) \<Longrightarrow> search_from fl r prev s = Some (s, gs)"
  by (cases s) (simp_all add: search_from.simps)


lemma no_match_in_append:
  "no_match_in fl r prev u (u' @ v) \<Longrightarrow> no_match_in fl r (lastc prev u) u' v \<Longrightarrow>
     no_match_in fl r prev (u @ u') v"
  by (induction u arbitrary: prev) simp_all

subsection \<open>Positions where a pattern cannot match\<close>




lemma match_bol_fail: "\<not> at_bol fl prev \<Longrightarrow> match_at fl (Bol # r) prev s = None"
  by (simp add: match_at_def re_m.simps)

lemma no_match_in_bol:
  "\<not> at_bol fl prev \<Longrightarrow> NL \<notin> set u \<Longrightarrow> no_match_in fl (Bol # r) prev u v"
  by (induction u arbitrary: prev) (auto simp: match_bol_fail at_bol_def)



subsection \<open>No empty match\<close>

text \<open>
  A match of a pattern with a consuming item has at least one character, and every
  pattern of the program has such an item: \<^verbatim>\<open>re.sub\<close>, \<^verbatim>\<open>re.search\<close> and \<^verbatim>\<open>re.split\<close>
  never meet an empty match here.
\<close>

lemma star_consumes:
  assumes r: "\<And>prev s k op gs. re_m fl r prev s k op gs = Some (n, g) \<Longrightarrow> k \<le> n \<and> (c \<longrightarrow> k < n)"
  shows "re_m fl (Star a # r) prev s k op gs = Some (n, g) \<Longrightarrow> k \<le> n \<and> (c \<longrightarrow> k < n)"
proof (induction s arbitrary: prev k)
  case Nil
  then have "re_m fl r prev [] k op gs = Some (n, g)" by (simp add: re_m.simps(4))
  then show ?case by (rule r)
next
  case (Cons x xs)
  show ?case
  proof (cases "atom_match fl a x \<and> re_m fl (Star a # r) (Some x) xs (Suc k) op gs \<noteq> None")
    case True
    with Cons.prems have "re_m fl (Star a # r) (Some x) xs (Suc k) op gs = Some (n, g)"
      by (subst (asm) re_m.simps(4)) (auto split: option.splits)
    then have "Suc k \<le> n" using Cons.IH by blast
    then show ?thesis by simp
  next
    case False
    with Cons.prems have "re_m fl r prev (x # xs) k op gs = Some (n, g)"
      by (subst (asm) re_m.simps(4)) (auto split: if_splits option.splits)
    then show ?thesis by (rule r)
  qed
qed

lemma lazy_consumes:
  assumes r: "\<And>prev s k op gs. re_m fl r prev s k op gs = Some (n, g) \<Longrightarrow> k \<le> n \<and> (c \<longrightarrow> k < n)"
  shows "re_m fl (StarLazy a # r) prev s k op gs = Some (n, g) \<Longrightarrow> k \<le> n \<and> (c \<longrightarrow> k < n)"
proof (induction s arbitrary: prev k)
  case Nil
  then have "re_m fl r prev [] k op gs = Some (n, g)"
    by (subst (asm) re_m.simps(6)) (auto split: option.splits)
  then show ?case by (rule r)
next
  case (Cons x xs)
  show ?case
  proof (cases "re_m fl r prev (x # xs) k op gs")
    case (Some m)
    with Cons.prems have "re_m fl r prev (x # xs) k op gs = Some (n, g)"
      by (subst (asm) re_m.simps(6)) (auto split: option.splits)
    then show ?thesis by (rule r)
  next
    case None
    with Cons.prems have "re_m fl (StarLazy a # r) (Some x) xs (Suc k) op gs = Some (n, g)"
      by (subst (asm) re_m.simps(6)) (auto split: if_splits option.splits)
    then have "Suc k \<le> n" using Cons.IH by blast
    then show ?thesis by simp
  qed
qed


lemma re_m_consumes:
  "re_m fl r prev s k op gs = Some (n, g) \<Longrightarrow> k \<le> n \<and> (list_ex consuming r \<longrightarrow> k < n)"
proof (induction r arbitrary: prev s k op gs)
  case Nil
  then show ?case by (simp add: re_m.simps(1))
next
  case (Cons i r)
  note ih = Cons.IH
  show ?case
  proof (cases i)
    case (One a)
    with Cons.prems obtain c cs where "re_m fl r (Some c) cs (Suc k) op gs = Some (n, g)"
      by (auto simp: re_m.simps(2) split: list.splits if_splits)
    from ih[OF this] show ?thesis by simp
  next
    case (Plus a)
    with Cons.prems obtain c cs where "re_m fl (Star a # r) (Some c) cs (Suc k) op gs = Some (n, g)"
      by (auto simp: re_m.simps(3) split: list.splits if_splits)
    then have "Suc k \<le> n \<and> (list_ex consuming r \<longrightarrow> Suc k < n)"
      using ih by (rule star_consumes[rotated])
    then show ?thesis by simp
  next
    case (Star a)
    with Cons.prems have "re_m fl (Star a # r) prev s k op gs = Some (n, g)" by simp
    then have "k \<le> n \<and> (list_ex consuming r \<longrightarrow> k < n)"
      using ih by (rule star_consumes[rotated])
    with Star show ?thesis by simp
  next
    case (PlusLazy a)
    with Cons.prems obtain c cs where "re_m fl (StarLazy a # r) (Some c) cs (Suc k) op gs = Some (n, g)"
      by (auto simp: re_m.simps(5) split: list.splits if_splits)
    then have "Suc k \<le> n \<and> (list_ex consuming r \<longrightarrow> Suc k < n)"
      using ih by (rule lazy_consumes[rotated])
    then show ?thesis by simp
  next
    case (StarLazy a)
    with Cons.prems have "re_m fl (StarLazy a # r) prev s k op gs = Some (n, g)" by simp
    then have "k \<le> n \<and> (list_ex consuming r \<longrightarrow> k < n)"
      using ih by (rule lazy_consumes[rotated])
    with StarLazy show ?thesis by simp
  next
    case Bol
    with Cons.prems have "re_m fl r prev s k op gs = Some (n, g)"
      by (auto simp: re_m.simps(7) split: if_splits)
    from ih[OF this] Bol show ?thesis by simp
  next
    case Eol
    with Cons.prems have "re_m fl r prev s k op gs = Some (n, g)"
      by (auto simp: re_m.simps(8) split: if_splits)
    from ih[OF this] Eol show ?thesis by simp
  next
    case GOpen
    with Cons.prems have "re_m fl r prev s k (Some k) gs = Some (n, g)"
      by (simp add: re_m.simps(9))
    from ih[OF this] GOpen show ?thesis by simp
  next
    case GClose
    with Cons.prems obtain b where "re_m fl r prev s k None (gs @ [(b, k)]) = Some (n, g)"
      by (auto simp: re_m.simps(10) split: option.splits)
    from ih[OF this] GClose show ?thesis by simp
  qed
qed

lemma match_not_empty:
  assumes "list_ex consuming r" and "match_at fl r prev s = Some (n, g)"
  shows "0 < n"
  using re_m_consumes[of fl r prev s 0 None "[]" n g] assms by (simp add: match_at_def)

lemma patterns_consume:
  "list_ex consuming pat_frontmatter" "list_ex consuming pat_h4" "list_ex consuming pat_h3"
  "list_ex consuming pat_h2" "list_ex consuming pat_h1" "list_ex consuming pat_star3"
  "list_ex consuming pat_star2" "list_ex consuming pat_star1" "list_ex consuming pat_under3"
  "list_ex consuming pat_under2" "list_ex consuming pat_under1" "list_ex consuming pat_link"
  "list_ex consuming pat_code" "list_ex consuming pat_blank" "list_ex consuming pat_newline"
  "list_ex consuming pat_special" "list_ex consuming pat_spaces" "list_ex consuming pat_title_line"
  by (simp_all add: pat_frontmatter_def pat_h4_def pat_h3_def pat_h2_def pat_h1_def pat_star3_def
      pat_star2_def pat_star1_def pat_under3_def pat_under2_def pat_under1_def pat_link_def
      pat_code_def pat_blank_def pat_newline_def pat_special_def pat_spaces_def pat_title_line_def
      lits_def)

subsection \<open>The substitutions on small texts\<close>

lemma examples:
  "re_split pat_blank ''a\<newline>  \<newline>\<newline>b'' = [''a'', ''b'']"
  "remove_frontmatter ''---\<newline>date: 2026\<newline>---\<newline>Body'' = ''Body''"
  "convert_emphasis ''**a** *b* __c__ _d_'' = ''<strong>a</strong> <em>b</em> <strong>c</strong> <em>d</em>''"
  \<open>convert_links ''[a](b) and [c]'' = ''<a href="b">a</a> and [c]''\<close>
  "convert_code ''`x` and `'' = ''<code>x</code> and `''"
  by code_simp+


section \<open>The file name\<close>

















section \<open>The missing input file\<close>

text \<open>
  Claim C6. When the input path does not exist, the program prints an error message and
  exits with status 1; the file system is left as it was, so no file is created under
  \<^verbatim>\<open>essays\<close>, and no script is run.
\<close>

theorem C6_missing_input:
  assumes "2 \<le> length argv" and "\<not> exists w (argv ! 1)"
  shows "fst (main argv d w) = SysExit 1 \<and> exit_code (fst (main argv d w)) \<noteq> 0 \<and>
     stdout (snd (main argv d w)) = stdout w @ [''Error: File '' @ quoted (argv ! 1) @ '' not found''] \<and>
     fs (snd (main argv d w)) = fs w \<and> ran (snd (main argv d w)) = ran w"
  using assms by (simp add: main_def print_def exit_code_def Let_def)

theorem C6_witness:
  "2 \<le> length [''publish.py'', ''missing.md''] \<and>
   \<not> exists \<lparr>fs = [''/site/essays'' \<mapsto> Dir], stdout = [], ran = []\<rparr> ([''publish.py'', ''missing.md''] ! 1) \<and>
   fst (main [''publish.py'', ''missing.md''] ''/site'' \<lparr>fs = [''/site/essays'' \<mapsto> Dir], stdout = [], ran = []\<rparr>) = SysExit 1 \<and>
   fs (snd (main [''publish.py'', ''missing.md''] ''/site'' \<lparr>fs = [''/site/essays'' \<mapsto> Dir], stdout = [], ran = []\<rparr>))
     = [''/site/essays'' \<mapsto> Dir]"
  using C6_missing_input[of "[''publish.py'', ''missing.md'']" "\<lparr>fs = [''/site/essays'' \<mapsto> Dir], stdout = [], ran = []\<rparr>" "''/site''"]
  by (simp add: exists_def)


section \<open>Paragraphs\<close>









section \<open>Front matter\<close>

lemma re_m_lits_end:
  "re_m fl (lits l) prev s k op gs = (if startswith s l then Some (k + length l, gs) else None)"
  using re_m_lits[of fl l "[]" prev s k op gs] by (simp add: re_m.simps)





lemma startswith_length: "startswith s l \<Longrightarrow> length l \<le> length s"
  by (metis startswith_def length_take min.cobounded1 min_def)



lemma startswith_split: "startswith t l \<Longrightarrow> t = l @ drop (length l) t"
  using append_take_drop_id[of "length l" t] by (simp add: startswith_def)








section \<open>Emphasis\<close>


















section \<open>Headings\<close>

declare map_lines.simps [simp del] find_heading.simps [simp del]

lemma heading_match:
  assumes "at_bol [MULTILINE] prev" and "is_heading n l" and "NL \<notin> set l" and "v = [] \<or> hd v = NL"
  shows "match_at [MULTILINE] (heading_pat n) prev (l @ v) = Some (length l, [(Suc n, length l)])"
proof -
  define t where "t = drop (Suc n) l"
  define m where "m = replicate n CHR ''#'' @ '' ''"
  have lm: "length m = Suc n" by (simp add: m_def)
  have l: "l = m @ t" using assms(2) startswith_split[of l m] by (simp add: is_heading_def m_def t_def)
  have tne: "t \<noteq> []" using assms(2) by (simp add: is_heading_def t_def)
  have dots: "\<forall>c \<in> set t. atom_match [MULTILINE] Dot c" using assms(3) l by auto
  have stop: "v = [] \<or> \<not> atom_match [MULTILINE] Dot (hd v)" using assms(4) by auto
  have eol: "at_eol [MULTILINE] v" using assms(4) by (auto simp: at_eol_def)
  have "re_m [MULTILINE] [GClose, Eol] (lastc (lastc prev m) t) v (Suc n + length t) (Some (Suc n)) []
      = Some (Suc n + length t, [(Suc n, Suc n + length t)])"
    using eol by (simp add: re_m.simps)
  then have "re_m [MULTILINE] (Plus Dot # [GClose, Eol]) (lastc prev m) (t @ v) (Suc n) (Some (Suc n)) []
      = Some (Suc n + length t, [(Suc n, Suc n + length t)])"
    using tne dots stop by (intro plus_greedy) simp_all
  then show ?thesis using assms(1) l lm
    by (simp add: match_at_def heading_pat_def m_def[symmetric] re_m.simps(7) re_m.simps(9) re_m_lits
        startswith_def)
qed

lemma plus_empty:
  "s = [] \<or> \<not> atom_match fl a (hd s) \<Longrightarrow> re_m fl (Plus a # r) prev s k op gs = None"
  by (cases s) (auto simp: re_m.simps(3))

lemma startswith_line:
  assumes "NL \<notin> set m" and "NL \<notin> set l" and "v = [] \<or> hd v = NL"
  shows "startswith (l @ v) m = startswith l m"
proof (cases "length m \<le> length l")
  case True
  then show ?thesis by (simp add: startswith_def)
next
  case False
  then have s: "\<not> startswith l m" using startswith_length by blast
  have "\<not> startswith (l @ v) m"
  proof
    assume a: "startswith (l @ v) m"
    then have "m = l @ take (length m - length l) v" using False by (simp add: startswith_def)
    moreover from False have "0 < length m - length l" by simp
    ultimately obtain c w where v: "v = c # w" and m: "m = l @ c # take (length m - length l - 1) w"
      by (cases v) (auto simp: take_Cons')
    from m have "c \<in> set m" by (metis in_set_conv_decomp)
    moreover have "c = NL" using assms(3) v by simp
    ultimately show False using assms(1) by simp
  qed
  with s show ?thesis by simp
qed

lemma heading_no_match:
  assumes "\<not> is_heading n l" and "NL \<notin> set l" and "v = [] \<or> hd v = NL"
  shows "match_at [MULTILINE] (heading_pat n) prev (l @ v) = None"
proof -
  define m where "m = replicate n CHR ''#'' @ '' ''"
  have lm: "length m = Suc n" by (simp add: m_def)
  have nm: "NL \<notin> set m" by (auto simp: m_def NL_def)
  show ?thesis
  proof (cases "startswith l m")
    case False
    then have "\<not> startswith (l @ v) m" using startswith_line[OF nm assms(2,3)] by simp
    then show ?thesis
      by (simp add: match_at_def heading_pat_def m_def[symmetric] re_m.simps(7) re_m_lits)
  next
    case True
    with assms(1) have "length l = Suc n"
      using startswith_length[of l m] by (simp add: is_heading_def m_def)
    with True lm have l: "l = m" by (simp add: startswith_def)
    have "re_m [MULTILINE] (Plus Dot # [GClose, Eol]) (lastc prev m) v (0 + length m) (Some (0 + length m)) [] = None"
      using assms(3) by (intro plus_empty) auto
    then show ?thesis using l
      by (simp add: match_at_def heading_pat_def m_def[symmetric] re_m.simps(7) re_m.simps(9) re_m_lits
          startswith_def)
  qed
qed


lemma line_no_match_in:
  assumes "\<not> is_heading n l" and "NL \<notin> set l" and "v = [] \<or> hd v = NL"
  shows "no_match_in [MULTILINE] (heading_pat n) prev l v"
proof (cases l)
  case Nil
  then show ?thesis by simp
next
  case (Cons c l')
  have "match_at [MULTILINE] (heading_pat n) prev (l @ v) = None"
    using assms by (rule heading_no_match)
  moreover have "no_match_in [MULTILINE] (heading_pat n) (Some c) l' v"
    unfolding heading_pat_def using assms(2) Cons
    by (intro no_match_in_bol) (auto simp: at_bol_def)
  ultimately show ?thesis using Cons by simp
qed

lemma heading_sub_line:
  assumes "at_bol [MULTILINE] prev" and "NL \<notin> set l" and "v = [] \<or> hd v = NL"
  shows "sub_from [MULTILINE] (heading_pat n) (tag t) None prev (l @ v) =
     heading_line n t l @ sub_from [MULTILINE] (heading_pat n) (tag t) None (lastc prev l) v"
proof (cases "is_heading n l")
  case True
  then have len: "Suc n < length l" by (simp add: is_heading_def)
  have "match_at [MULTILINE] (heading_pat n) prev (l @ v) = Some (length l, [(Suc n, length l)])"
    using assms(1) True assms(2,3) by (rule heading_match)
  then have "sub_from [MULTILINE] (heading_pat n) (tag t) None prev (l @ v) =
      expand (tag t) (l @ v) [(Suc n, length l)]
      @ sub_from [MULTILINE] (heading_pat n) (tag t) (dec None) (lastc prev l) v"
    using len by (intro sub_from_hit) auto
  moreover have "expand (tag t) (l @ v) [(Suc n, length l)] = heading_line n t l"
    using True len by (simp add: tag_def group_def heading_line_def)
  ultimately show ?thesis by simp
next
  case False
  then have "no_match_in [MULTILINE] (heading_pat n) prev l v"
    using assms(2,3) by (rule line_no_match_in)
  then show ?thesis using False by (simp add: sub_from_skip heading_line_def)
qed

lemma line_split:
  "s = takeWhile (\<lambda>c. c \<noteq> NL) s @ dropWhile (\<lambda>c. c \<noteq> NL) s"
  "NL \<notin> set (takeWhile (\<lambda>c. c \<noteq> NL) s)"
  "dropWhile (\<lambda>c. c \<noteq> NL) s = [] \<or> hd (dropWhile (\<lambda>c. c \<noteq> NL) s) = NL"
proof -
  show "s = takeWhile (\<lambda>c. c \<noteq> NL) s @ dropWhile (\<lambda>c. c \<noteq> NL) s" by simp
  show "NL \<notin> set (takeWhile (\<lambda>c. c \<noteq> NL) s)" using set_takeWhileD by fastforce
  show "dropWhile (\<lambda>c. c \<noteq> NL) s = [] \<or> hd (dropWhile (\<lambda>c. c \<noteq> NL) s) = NL"
    using hd_dropWhile[of "\<lambda>c. c \<noteq> NL" s] by auto
qed

lemma rest_shorter: "dropWhile P s = c # r \<Longrightarrow> length r < length s"
  using length_dropWhile_le[of P s] by simp

lemma heading_none_empty:
  "match_at [MULTILINE] (heading_pat n) prev [] = None"
  using heading_no_match[of n "[]" "[]" prev] by (simp add: is_heading_def startswith_def)

lemma heading_none_newline:
  "match_at [MULTILINE] (heading_pat n) prev (NL # r) = None"
  using heading_no_match[of n "[]" "NL # r" prev] by (simp add: is_heading_def startswith_def)

lemma map_lines_last:
  assumes "dropWhile (\<lambda>c. c \<noteq> NL) s = []"
  shows "map_lines f s = f (takeWhile (\<lambda>c. c \<noteq> NL) s)"
  by (subst map_lines.simps) (simp only: assms list.case append_Nil2)

lemma map_lines_next:
  assumes "dropWhile (\<lambda>c. c \<noteq> NL) s = c # r"
  shows "map_lines f s = f (takeWhile (\<lambda>c. c \<noteq> NL) s) @ NL # map_lines f r"
  by (subst map_lines.simps) (simp only: assms list.case)

lemma heading_sub_lines:
  "at_bol [MULTILINE] prev \<Longrightarrow>
     sub_from [MULTILINE] (heading_pat n) (tag t) None prev s = map_lines (heading_line n t) s"
proof (induction s arbitrary: prev rule: length_induct)
  case (1 s)
  define l where "l = takeWhile (\<lambda>c. c \<noteq> NL) s"
  define v where "v = dropWhile (\<lambda>c. c \<noteq> NL) s"
  have s: "s = l @ v" and nl: "NL \<notin> set l" and hv: "v = [] \<or> hd v = NL"
    using line_split[of s] by (simp_all add: l_def v_def)
  have step: "sub_from [MULTILINE] (heading_pat n) (tag t) None prev (l @ v) =
      heading_line n t l @ sub_from [MULTILINE] (heading_pat n) (tag t) None (lastc prev l) v"
    using "1.prems" nl hv by (rule heading_sub_line)
  show ?case
  proof (cases v)
    case Nil
    then have "map_lines (heading_line n t) s = heading_line n t l"
      unfolding l_def v_def by (rule map_lines_last)
    moreover have "sub_from [MULTILINE] (heading_pat n) (tag t) None (lastc prev l) [] = []"
      by (simp add: sub_from.simps heading_none_empty)
    ultimately show ?thesis using step s Nil by simp
  next
    case (Cons c r)
    with hv have c: "c = NL" by simp
    have "length r < length s" using Cons rest_shorter[of "\<lambda>c. c \<noteq> NL" s c r] by (simp add: v_def)
    then have ih: "sub_from [MULTILINE] (heading_pat n) (tag t) None (Some NL) r =
        map_lines (heading_line n t) r"
      using "1.IH" by (simp add: at_bol_def)
    have "map_lines (heading_line n t) s = heading_line n t l @ NL # map_lines (heading_line n t) r"
      using Cons unfolding l_def v_def by (rule map_lines_next)
    moreover have "sub_from [MULTILINE] (heading_pat n) (tag t) None (lastc prev l) (NL # r) =
        NL # sub_from [MULTILINE] (heading_pat n) (tag t) None (Some NL) r"
      by (simp add: sub_from.simps heading_none_newline)
    ultimately show ?thesis using step s Cons c ih by simp
  qed
qed

lemma heading_patterns:
  "pat_h4 = heading_pat 4" "pat_h3 = heading_pat 3" "pat_h2 = heading_pat 2" "pat_h1 = heading_pat 1"
  by (simp_all add: pat_h4_def pat_h3_def pat_h2_def pat_h1_def heading_pat_def eval_nat_numeral)

lemma convert_headers_lines:
  "convert_headers s =
     map_lines (heading_line 1 ''h1'') (map_lines (heading_line 2 ''h2'')
       (map_lines (heading_line 3 ''h3'') (map_lines (heading_line 4 ''h4'') s)))"
  by (simp add: convert_headers_def re_sub_def heading_patterns heading_sub_lines at_bol_def)


lemma line_take: "NL \<notin> set l \<Longrightarrow> takeWhile (\<lambda>c. c \<noteq> NL) (l @ NL # w) = l"
  by (induction l) auto

lemma line_drop: "NL \<notin> set l \<Longrightarrow> dropWhile (\<lambda>c. c \<noteq> NL) (l @ NL # w) = NL # w"
  by (induction l) auto

lemma line_take_all: "NL \<notin> set l \<Longrightarrow> takeWhile (\<lambda>c. c \<noteq> NL) l = l"
  by (induction l) auto

lemma line_drop_all: "NL \<notin> set l \<Longrightarrow> dropWhile (\<lambda>c. c \<noteq> NL) l = []"
  by (induction l) auto

lemma map_lines_single: "NL \<notin> set l \<Longrightarrow> map_lines f l = f l"
  using map_lines_last[of l f] by (simp add: line_take_all line_drop_all)

lemma map_lines_first:
  "NL \<notin> set l \<Longrightarrow> map_lines f (l @ NL # w) = f l @ NL # map_lines f w"
  using map_lines_next[of "l @ NL # w" NL w f] by (simp add: line_take line_drop)

lemma map_lines_nl: "map_lines f (a @ NL # b) = map_lines f a @ NL # map_lines f b"
proof (induction a rule: length_induct)
  case (1 a)
  define l where "l = takeWhile (\<lambda>c. c \<noteq> NL) a"
  define v where "v = dropWhile (\<lambda>c. c \<noteq> NL) a"
  have a: "a = l @ v" and nl: "NL \<notin> set l" and hv: "v = [] \<or> hd v = NL"
    using line_split[of a] by (simp_all add: l_def v_def)
  show ?case
  proof (cases v)
    case Nil
    with a nl show ?thesis by (simp add: map_lines_first map_lines_single)
  next
    case (Cons c r)
    with hv have c: "c = NL" by simp
    have "length r < length a" using Cons rest_shorter[of "\<lambda>c. c \<noteq> NL" a c r] by (simp add: v_def)
    then have "map_lines f (r @ NL # b) = map_lines f r @ NL # map_lines f b"
      using "1.IH" by simp
    moreover have "map_lines f (l @ NL # r @ NL # b) = f l @ NL # map_lines f (r @ NL # b)"
      using nl by (rule map_lines_first)
    moreover have "map_lines f (l @ NL # r) = f l @ NL # map_lines f r"
      using nl by (rule map_lines_first)
    ultimately show ?thesis using a Cons c by simp
  qed
qed

lemma map_lines_empty: "f [] = [] \<Longrightarrow> map_lines f [] = []"
  using map_lines_single[of "[]" f] by simp

lemma map_lines_mid:
  assumes "f [] = []" and "NL \<notin> set l" and "pre = [] \<or> last pre = NL" and "post = [] \<or> hd post = NL"
  shows "map_lines f (pre @ l @ post) = map_lines f pre @ f l @ map_lines f post"
proof -
  have right: "map_lines f (l @ post) = f l @ map_lines f post"
  proof (cases post)
    case Nil
    then show ?thesis using assms(1,2) by (simp add: map_lines_single map_lines_empty)
  next
    case (Cons c r)
    with assms(4) have "post = NL # r" by simp
    moreover have "map_lines f (NL # r) = NL # map_lines f r"
      using map_lines_first[of "[]" f r] assms(1) by simp
    ultimately show ?thesis using assms(2) by (simp add: map_lines_first)
  qed
  show ?thesis
  proof (cases "pre = []")
    case True
    then show ?thesis using right assms(1) by (simp add: map_lines_empty)
  next
    case False
    with assms(3) have "pre = butlast pre @ [NL]" by (metis append_butlast_last_id)
    then obtain a where pre: "pre = a @ [NL]" by blast
    have "map_lines f (a @ NL # l @ post) = map_lines f a @ NL # map_lines f (l @ post)"
      by (rule map_lines_nl)
    moreover have "map_lines f (a @ NL # []) = map_lines f a @ NL # map_lines f []"
      by (rule map_lines_nl)
    ultimately show ?thesis using pre right assms(1) by (simp add: map_lines_empty)
  qed
qed

lemma map_lines_ends:
  assumes "f [] = []"
  shows "pre = [] \<or> last pre = NL \<Longrightarrow> map_lines f pre = [] \<or> last (map_lines f pre) = NL"
    and "post = [] \<or> hd post = NL \<Longrightarrow> map_lines f post = [] \<or> hd (map_lines f post) = NL"
proof -
  assume p: "pre = [] \<or> last pre = NL"
  show "map_lines f pre = [] \<or> last (map_lines f pre) = NL"
  proof (cases "pre = []")
    case True
    then show ?thesis using assms by (simp add: map_lines_empty)
  next
    case False
    with p have "pre = butlast pre @ [NL]" by (metis append_butlast_last_id)
    then obtain a where pre: "pre = a @ [NL]" by blast
    have "map_lines f (a @ NL # []) = map_lines f a @ NL # map_lines f []"
      by (rule map_lines_nl)
    then show ?thesis using pre assms by (simp add: map_lines_empty)
  qed
next
  assume p: "post = [] \<or> hd post = NL"
  show "map_lines f post = [] \<or> hd (map_lines f post) = NL"
  proof (cases post)
    case Nil
    then show ?thesis using assms by (simp add: map_lines_empty)
  next
    case (Cons c r)
    with p have "post = NL # r" by simp
    then show ?thesis using map_lines_first[of "[]" f r] assms by simp
  qed
qed

lemma heading_line_empty [simp]: "heading_line n t [] = []"
  by (simp add: heading_line_def is_heading_def)


lemma heading_lines_mid:
  assumes "NL \<notin> set l" and "pre = [] \<or> last pre = NL" and "post = [] \<or> hd post = NL"
  shows "map_lines (heading_line n t) (pre @ l @ post) =
     map_lines (heading_line n t) pre @ heading_line n t l @ map_lines (heading_line n t) post"
  using map_lines_mid[of "heading_line n t" l pre post] assms by simp

lemma heading_lines_last:
  assumes "pre = [] \<or> last pre = NL"
  shows "map_lines (heading_line n t) pre = [] \<or> last (map_lines (heading_line n t) pre) = NL"
  using map_lines_ends(1)[of "heading_line n t" pre] assms by simp

lemma heading_lines_hd:
  assumes "post = [] \<or> hd post = NL"
  shows "map_lines (heading_line n t) post = [] \<or> hd (map_lines (heading_line n t) post) = NL"
  using map_lines_ends(2)[of "heading_line n t" post] assms by simp

lemma heading_line_nl:
  assumes "NL \<notin> set l" and "NL \<notin> set t"
  shows "NL \<notin> set (heading_line n t l)"
proof -
  have "NL \<notin> set (drop (Suc n) l)" using assms(1) in_set_dropD by fastforce
  with assms show ?thesis by (simp add: heading_line_def NL_def)
qed

lemma heading_levels:
  assumes "1 \<le> n" and "n \<le> 4" and "t \<noteq> []"
  shows "heading_line 1 ''h1'' (heading_line 2 ''h2'' (heading_line 3 ''h3'' (heading_line 4 ''h4''
      (replicate n CHR ''#'' @ '' '' @ t)))) =
    ''<h'' @ [''01234'' ! n] @ ''>'' @ t @ ''</h'' @ [''01234'' ! n] @ ''>''"
proof -
  have lt: "0 < length t" using assms(3) by simp
  from assms(1,2) consider "n = 1" | "n = 2" | "n = 3" | "n = 4" by linarith
  then show ?thesis
  proof cases
    case 1
    then show ?thesis using lt
      by (simp add: heading_line_def is_heading_def startswith_def eval_nat_numeral)
  next
    case 2
    then show ?thesis using lt
      by (simp add: heading_line_def is_heading_def startswith_def eval_nat_numeral)
  next
    case 3
    then show ?thesis using lt
      by (simp add: heading_line_def is_heading_def startswith_def eval_nat_numeral)
  next
    case 4
    then show ?thesis using lt
      by (simp add: heading_line_def is_heading_def startswith_def eval_nat_numeral)
  qed
qed

lemma convert_headers_mid:
  assumes "NL \<notin> set l" and "pre = [] \<or> last pre = NL" and "post = [] \<or> hd post = NL"
  shows "convert_headers (pre @ l @ post) =
     convert_headers pre
     @ heading_line 1 ''h1'' (heading_line 2 ''h2'' (heading_line 3 ''h3'' (heading_line 4 ''h4'' l)))
     @ convert_headers post"
proof -
  let ?f4 = "heading_line 4 ''h4''" and ?f3 = "heading_line 3 ''h3''"
  let ?f2 = "heading_line 2 ''h2''" and ?f1 = "heading_line 1 ''h1''"
  have t: "NL \<notin> set ''h4''" "NL \<notin> set ''h3''" "NL \<notin> set ''h2''" by (simp_all add: NL_def)
  have n4: "NL \<notin> set (?f4 l)" using assms(1) t(1) by (rule heading_line_nl)
  have n3: "NL \<notin> set (?f3 (?f4 l))" using n4 t(2) by (rule heading_line_nl)
  have n2: "NL \<notin> set (?f2 (?f3 (?f4 l)))" using n3 t(3) by (rule heading_line_nl)
  have e4: "map_lines ?f4 (pre @ l @ post) = map_lines ?f4 pre @ ?f4 l @ map_lines ?f4 post"
    by (rule heading_lines_mid[OF assms])
  have p4: "map_lines ?f4 pre = [] \<or> last (map_lines ?f4 pre) = NL"
    by (rule heading_lines_last[OF assms(2)])
  have q4: "map_lines ?f4 post = [] \<or> hd (map_lines ?f4 post) = NL"
    by (rule heading_lines_hd[OF assms(3)])
  have e3: "map_lines ?f3 (map_lines ?f4 pre @ ?f4 l @ map_lines ?f4 post) =
      map_lines ?f3 (map_lines ?f4 pre) @ ?f3 (?f4 l) @ map_lines ?f3 (map_lines ?f4 post)"
    by (rule heading_lines_mid[OF n4 p4 q4])
  have p3: "map_lines ?f3 (map_lines ?f4 pre) = [] \<or> last (map_lines ?f3 (map_lines ?f4 pre)) = NL"
    by (rule heading_lines_last[OF p4])
  have q3: "map_lines ?f3 (map_lines ?f4 post) = [] \<or> hd (map_lines ?f3 (map_lines ?f4 post)) = NL"
    by (rule heading_lines_hd[OF q4])
  have e2: "map_lines ?f2 (map_lines ?f3 (map_lines ?f4 pre) @ ?f3 (?f4 l) @ map_lines ?f3 (map_lines ?f4 post)) =
      map_lines ?f2 (map_lines ?f3 (map_lines ?f4 pre)) @ ?f2 (?f3 (?f4 l))
      @ map_lines ?f2 (map_lines ?f3 (map_lines ?f4 post))"
    by (rule heading_lines_mid[OF n3 p3 q3])
  have p2: "map_lines ?f2 (map_lines ?f3 (map_lines ?f4 pre)) = [] \<or>
      last (map_lines ?f2 (map_lines ?f3 (map_lines ?f4 pre))) = NL"
    by (rule heading_lines_last[OF p3])
  have q2: "map_lines ?f2 (map_lines ?f3 (map_lines ?f4 post)) = [] \<or>
      hd (map_lines ?f2 (map_lines ?f3 (map_lines ?f4 post))) = NL"
    by (rule heading_lines_hd[OF q3])
  have e1: "map_lines ?f1 (map_lines ?f2 (map_lines ?f3 (map_lines ?f4 pre)) @ ?f2 (?f3 (?f4 l))
        @ map_lines ?f2 (map_lines ?f3 (map_lines ?f4 post))) =
      map_lines ?f1 (map_lines ?f2 (map_lines ?f3 (map_lines ?f4 pre))) @ ?f1 (?f2 (?f3 (?f4 l)))
      @ map_lines ?f1 (map_lines ?f2 (map_lines ?f3 (map_lines ?f4 post)))"
    by (rule heading_lines_mid[OF n2 p2 q2])
  show ?thesis unfolding convert_headers_lines e4 e3 e2 e1 by (rule refl)
qed

text \<open>
  Claim C8, as amended. Each heading pattern is anchored to its line and asks for its own
  number of hashes, a space and at least one more character. So a line of \<open>n\<close> hashes
  (from 1 to 4), a space and a text \<open>t\<close> that is not empty becomes the level-\<open>n\<close> heading
  tag around \<open>t\<close>, whatever the lines before and after it, and no pattern of another
  level matches it. For every line that starts with the marker and a space, as the claim
  states it, this fails: with nothing after the space no pattern matches and the line
  stays as it is.
\<close>

theorem C8_heading_levels:
  assumes "1 \<le> n" and "n \<le> 4" and "t \<noteq> []" and "NL \<notin> set t"
    and "pre = [] \<or> last pre = NL" and "post = [] \<or> hd post = NL"
  shows "convert_headers (pre @ (replicate n CHR ''#'' @ '' '' @ t) @ post) =
     convert_headers pre @ (''<h'' @ [''01234'' ! n] @ ''>'' @ t @ ''</h'' @ [''01234'' ! n] @ ''>'')
     @ convert_headers post"
proof -
  have nl: "NL \<notin> set (replicate n CHR ''#'' @ '' '' @ t)" using assms(4) by (auto simp: NL_def)
  show ?thesis
    unfolding convert_headers_mid[OF nl assms(5,6)] heading_levels[OF assms(1-3)] by (rule refl)
qed

lemma headers_intro: "convert_headers ''intro\<newline>'' = ''intro\<newline>''"
  by code_simp

lemma headers_body: "convert_headers ''\<newline>### text'' = ''\<newline><h3>text</h3>''"
  by code_simp

theorem C8_witness:
  "convert_headers ''intro\<newline>## A title\<newline>### text'' = ''intro\<newline><h2>A title</h2>\<newline><h3>text</h3>''"
  using C8_heading_levels[of 2 "''A title''" "''intro\<newline>''" "''\<newline>### text''"] headers_intro headers_body
  by (simp add: NL_def numeral_2_eq_2)

theorem C8_counterexample:
  "convert_headers ''## '' = ''## '' \<and> markdown_to_html ''## '' = ''<p>##</p>''"
  by code_simp


section \<open>The title\<close>

lemma find_heading_hit:
  assumes "is_heading 1 (takeWhile (\<lambda>c. c \<noteq> NL) s)"
  shows "find_heading s = Some (s, [(2, length (takeWhile (\<lambda>c. c \<noteq> NL) s))])"
  by (subst find_heading.simps) (simp only: assms if_True)

lemma find_heading_last:
  assumes "\<not> is_heading 1 (takeWhile (\<lambda>c. c \<noteq> NL) s)" and "dropWhile (\<lambda>c. c \<noteq> NL) s = []"
  shows "find_heading s = None"
  by (subst find_heading.simps) (simp only: assms if_False list.case)

lemma find_heading_next:
  assumes "\<not> is_heading 1 (takeWhile (\<lambda>c. c \<noteq> NL) s)" and "dropWhile (\<lambda>c. c \<noteq> NL) s = c # r"
  shows "find_heading s = find_heading r"
  by (subst find_heading.simps) (simp only: assms if_False list.case)

lemma search_lines:
  "at_bol [MULTILINE] prev \<Longrightarrow> search_from [MULTILINE] (heading_pat 1) prev s = find_heading s"
proof (induction s arbitrary: prev rule: length_induct)
  case (1 s)
  define l where "l = takeWhile (\<lambda>c. c \<noteq> NL) s"
  define v where "v = dropWhile (\<lambda>c. c \<noteq> NL) s"
  have s: "s = l @ v" and nl: "NL \<notin> set l" and hv: "v = [] \<or> hd v = NL"
    using line_split[of s] by (simp_all add: l_def v_def)
  show ?case
  proof (cases "is_heading 1 l")
    case True
    have "match_at [MULTILINE] (heading_pat 1) prev (l @ v) = Some (length l, [(Suc 1, length l)])"
      using "1.prems" True nl hv by (rule heading_match)
    then have "search_from [MULTILINE] (heading_pat 1) prev (l @ v) = Some (l @ v, [(Suc 1, length l)])"
      by (rule search_from_hit)
    moreover have "find_heading s = Some (s, [(2, length l)])"
      using True unfolding l_def by (rule find_heading_hit)
    ultimately show ?thesis using s by simp
  next
    case False
    then have "no_match_in [MULTILINE] (heading_pat 1) prev l v"
      using nl hv by (rule line_no_match_in)
    then have skip: "search_from [MULTILINE] (heading_pat 1) prev (l @ v) =
        search_from [MULTILINE] (heading_pat 1) (lastc prev l) v"
      by (rule search_from_skip)
    show ?thesis
    proof (cases v)
      case Nil
      then have "find_heading s = None" using False unfolding l_def v_def by (intro find_heading_last)
      moreover have "search_from [MULTILINE] (heading_pat 1) (lastc prev l) [] = None"
        by (simp add: search_from.simps heading_none_empty)
      ultimately show ?thesis using skip s Nil by simp
    next
      case (Cons c r)
      with hv have c: "c = NL" by simp
      have "length r < length s" using Cons rest_shorter[of "\<lambda>c. c \<noteq> NL" s c r] by (simp add: v_def)
      then have ih: "search_from [MULTILINE] (heading_pat 1) (Some NL) r = find_heading r"
        using "1.IH" by (simp add: at_bol_def)
      have "find_heading s = find_heading r"
        using False Cons unfolding l_def v_def by (intro find_heading_next)
      moreover have "search_from [MULTILINE] (heading_pat 1) (lastc prev l) (NL # r) =
          search_from [MULTILINE] (heading_pat 1) (Some NL) r"
        by (simp add: search_from.simps heading_none_newline)
      ultimately show ?thesis using skip s Cons c ih by simp
    qed
  qed
qed

lemma re_search_h1: "re_search pat_h1 s [MULTILINE] = find_heading s"
  unfolding re_search_def heading_patterns by (rule search_lines) (simp add: at_bol_def)

lemma split_on_lines:
  "split_on NL s =
     takeWhile (\<lambda>c. c \<noteq> NL) s #
     (case dropWhile (\<lambda>c. c \<noteq> NL) s of [] \<Rightarrow> [] | c # r \<Rightarrow> split_on NL r)"
  by (induction s) (auto split: list.splits)

lemma first_line_in: "takeWhile (\<lambda>c. c \<noteq> NL) s \<in> set (split_on NL s)"
  by (subst split_on_lines) simp

lemma rest_lines_in:
  "dropWhile (\<lambda>c. c \<noteq> NL) s = c # r \<Longrightarrow> set (split_on NL r) \<subseteq> set (split_on NL s)"
  by (subst (2) split_on_lines) auto


lemma find_heading_at:
  assumes "pre = [] \<or> last pre = NL" and "\<forall>l \<in> set (split_on NL pre). \<not> is_heading 1 l"
    and "is_heading 1 l" and "NL \<notin> set l" and "post = [] \<or> hd post = NL"
  shows "find_heading (pre @ l @ post) = Some (l @ post, [(2, length l)])"
  using assms(1,2)
proof (induction pre rule: length_induct)
  case (1 pre)
  show ?case
  proof (cases "pre = []")
    case True
    have "takeWhile (\<lambda>c. c \<noteq> NL) (l @ post) = l"
    proof (cases post)
      case Nil
      then show ?thesis using assms(4) by (simp add: line_take_all)
    next
      case (Cons c r)
      with assms(5) have "post = NL # r" by simp
      then show ?thesis using assms(4) by (simp add: line_take)
    qed
    then show ?thesis using find_heading_hit[of "l @ post"] assms(3) True by simp
  next
    case False
    define l0 where "l0 = takeWhile (\<lambda>c. c \<noteq> NL) pre"
    define v0 where "v0 = dropWhile (\<lambda>c. c \<noteq> NL) pre"
    have p: "pre = l0 @ v0" and nl0: "NL \<notin> set l0" using line_split[of pre] by (simp_all add: l0_def v0_def)
    have "last pre = NL" using "1.prems"(1) False by simp
    then have "NL \<in> set pre" using False last_in_set by metis
    then have "v0 \<noteq> []" using p nl0 by auto
    then obtain r where v0: "v0 = NL # r" using line_split(3)[of pre] by (cases v0) (auto simp: v0_def)
    have h0: "\<not> is_heading 1 l0" using "1.prems"(2) first_line_in[of pre] by (auto simp: l0_def)
    have lr: "length r < length pre" using p v0 by simp
    have r1: "r = [] \<or> last r = NL" using \<open>last pre = NL\<close> p v0 by (cases "r = []") simp_all
    have r2: "\<forall>l \<in> set (split_on NL r). \<not> is_heading 1 l"
      using "1.prems"(2) rest_lines_in[of pre NL r] v0 by (auto simp: v0_def)
    have ih: "find_heading (r @ l @ post) = Some (l @ post, [(2, length l)])"
      using "1.IH" lr r1 r2 by blast
    have full: "pre @ l @ post = l0 @ NL # (r @ l @ post)" using p v0 by simp
    have t: "takeWhile (\<lambda>c. c \<noteq> NL) (pre @ l @ post) = l0" unfolding full using nl0 by (rule line_take)
    have d: "dropWhile (\<lambda>c. c \<noteq> NL) (pre @ l @ post) = NL # (r @ l @ post)"
      unfolding full using nl0 by (rule line_drop)
    have "find_heading (pre @ l @ post) = find_heading (r @ l @ post)"
      using h0 d unfolding t[symmetric] by (rule find_heading_next)
    with ih show ?thesis by simp
  qed
qed





lemma title_first_line:
  assumes "length argv < 3" and "t \<noteq> []" and "NL \<notin> set t"
  shows "resolve_title argv md_file ((''# '' @ t) @ NL # rest) = (t, rest)"
proof -
  have h: "is_heading 1 (''# '' @ t)" using assms(2) by (simp add: is_heading_def startswith_def)
  have n: "NL \<notin> set (''# '' @ t)" using assms(3) by (simp add: NL_def)
  have "find_heading ([] @ (''# '' @ t) @ NL # rest) =
      Some ((''# '' @ t) @ NL # rest, [(2, length (''# '' @ t))])"
    using h n by (intro find_heading_at) (simp_all add: is_heading_def startswith_def)
  then have f: "find_heading ((''# '' @ t) @ NL # rest) =
      Some ((''# '' @ t) @ NL # rest, [(2, length (''# '' @ t))])" by simp
  have g: "group ((''# '' @ t) @ NL # rest) [(2, length (''# '' @ t))] 1 = t"
    by (simp add: group_def)
  have dots: "\<forall>c \<in> set t. atom_match [] Dot c" using assms(3) by auto
  have "re_m [] (lits [NL]) (lastc (Some CHR '' '') t) (NL # rest) (Suc (Suc 0) + length t) None [] =
      Some (Suc (Suc 0) + length t + 1, [])"
    by (simp add: re_m_lits_end startswith_def)
  then have "re_m [] (Plus Dot # lits [NL]) (Some CHR '' '') (t @ NL # rest) (Suc (Suc 0)) None [] =
      Some (Suc (Suc 0) + length t + 1, [])"
    using assms(2) dots by (intro plus_greedy) simp_all
  then have m: "match_at [] pat_title_line None (((''# '' @ t) @ [NL]) @ rest) =
      Some (length ((''# '' @ t) @ [NL]), [])"
    by (simp add: pat_title_line_def match_at_def re_m.simps(7) at_bol_def re_m_lits startswith_def
        NL_def)
  have "sub_from [] pat_title_line [] (Some 1) None (((''# '' @ t) @ [NL]) @ rest) =
      expand [] (((''# '' @ t) @ [NL]) @ rest) []
      @ sub_from [] pat_title_line [] (dec (Some 1)) (lastc None ((''# '' @ t) @ [NL])) rest"
    using m by (rule sub_from_hit) simp_all
  then have k: "re_sub_count pat_title_line [] ((''# '' @ t) @ NL # rest) 1 = rest"
    by (simp add: re_sub_count_def dec_def)
  show ?thesis using assms(1) f g k by (simp add: resolve_title_def re_search_h1)
qed

text \<open>
  Claim C1. The program takes the title from the first line that matches the pattern of
  a level-1 header, wherever that line is; it removes the line only when the text starts
  with it and a newline follows it (\<open>title_first_line\<close>). Here the text has front matter
  before the header line: the title is found, the line stays in the text and is rendered
  in the body. So does a text that is the header line alone, without a newline.
\<close>

theorem C1_heading_line_kept:
  "resolve_title [''publish.py'', ''essay.md''] ''essay.md''
     ''---\<newline>date: 2026\<newline>---\<newline># My Essay\<newline>\<newline>Body\<newline>'' =
     (''My Essay'', ''---\<newline>date: 2026\<newline>---\<newline># My Essay\<newline>\<newline>Body\<newline>'') \<and>
   markdown_to_html ''---\<newline>date: 2026\<newline>---\<newline># My Essay\<newline>\<newline>Body\<newline>'' =
     ''<h1>My Essay</h1>'' @ paragraph_sep @ ''<p>Body</p>'' \<and>
   resolve_title [''publish.py'', ''essay.md''] ''essay.md'' ''# My Essay'' = (''My Essay'', ''# My Essay'')"
  by code_simp










end
